theory Spec2Isabelle
  imports
    Main
    "HOL-Library.Word"
    "HOL-Library.Char_ord"
    "HOL-Library.List_Lexorder"
    "HOL-Library.Sublist"
    "HOL-Library.Multiset"
begin

unbundle bit_operations_syntax

section \<open>Data model of the registry\<close>

text \<open>
  The registry (package oairouter, type BackendRegistry) holds two Go maps: the backend
  table \<open>backends\<close> (backend id to handle) and the model index \<open>models\<close> (model id to the
  slice of backend ids, in insertion order). A handle is seen by the registry through the
  Backend interface only; the record below carries what the registry reads from it: the
  result of \<open>ID()\<close>, \<open>Type()\<close>, \<open>BaseURL()\<close> and the health bit that \<open>IsHealthy()\<close> loads.
  Go strings are byte sequences, so they are HOL strings, ordered bytewise. A lookup
  holds the read lock, which keeps the two maps fixed; the health bits are taken as one
  snapshot for the whole lookup.
\<close>

datatype BackendType =
  BackendVLLM | BackendOllama | BackendLlamaCpp | BackendLMStudio | BackendGeneric

record Backend =
  ID :: string
  Type :: BackendType
  BaseURL :: string
  IsHealthy :: bool

record Model =
  Model_ID :: string
  Model_Object :: string
  Model_Created :: int
  Model_OwnedBy :: string

record BackendRegistry =
  backends :: "string \<rightharpoonup> Backend"
  models :: "string \<rightharpoonup> string list"

datatype error =
  BackendNotFound string
  | ModelsFetchFailed string

definition NewBackendRegistry :: BackendRegistry where
  "NewBackendRegistry = \<lparr>backends = Map.empty, models = Map.empty\<rparr>"

section \<open>Lookup by model\<close>

text \<open>
  The scan of \<open>LookupByModel\<close>: the first id of the slice whose handle exists and is
  healthy wins.
\<close>

fun first_healthy :: "(string \<rightharpoonup> Backend) \<Rightarrow> string list \<Rightarrow> Backend option" where
  "first_healthy tbl [] = None"
| "first_healthy tbl (bid # rest) =
     (case tbl bid of
        Some backend \<Rightarrow> if IsHealthy backend then Some backend else first_healthy tbl rest
      | None \<Rightarrow> first_healthy tbl rest)"

definition LookupByModel :: "BackendRegistry \<Rightarrow> string \<Rightarrow> Backend option" where
  "LookupByModel r modelID =
     (case models r modelID of
        None \<Rightarrow> None
      | Some backendIDs \<Rightarrow>
          if length backendIDs = 0 then None
          else (case first_healthy (backends r) backendIDs of
                  Some backend \<Rightarrow> Some backend
                | None \<Rightarrow> backends r (backendIDs ! 0)))"

text \<open>
  The handles that a slice of backend ids denotes, in the order of the slice: an id with
  no entry in the backend table denotes nothing.
\<close>

definition present_backends :: "BackendRegistry \<Rightarrow> string list \<Rightarrow> Backend list" where
  "present_backends r backendIDs = List.map_filter (backends r) backendIDs"

section \<open>Mutation of the registry\<close>

text \<open>
  \<open>addModelMapping\<close> appends the backend id to the slice of the model unless the slice
  already holds it. A missing key reads as the nil slice.
\<close>

definition addModelMapping :: "BackendRegistry \<Rightarrow> string \<Rightarrow> string \<Rightarrow> BackendRegistry" where
  "addModelMapping r modelID backendID =
     (let bs = (case models r modelID of None \<Rightarrow> [] | Some l \<Rightarrow> l)
      in if backendID \<in> set bs then r
         else r\<lparr>models := (models r)(modelID \<mapsto> bs @ [backendID])\<rparr>)"

text \<open>
  \<open>index_models\<close> is the loop \<open>for _, model := range models { r.addModelMapping(model.ID, id) }\<close>
  that ends both \<open>Register\<close> and \<open>RefreshModels\<close>.
\<close>

fun index_models :: "BackendRegistry \<Rightarrow> string \<Rightarrow> Model list \<Rightarrow> BackendRegistry" where
  "index_models r backendID [] = r"
| "index_models r backendID (model # rest) =
     index_models (addModelMapping r (Model_ID model) backendID) backendID rest"

text \<open>
  The call \<open>b.Models(ctx)\<close> asks the upstream server, so its outcome is an input of
  the model: either an error or the list of models fetched at that moment. \<open>Register\<close>
  returns the nil error on every path, so only the new registry is returned.
\<close>

definition Register :: "BackendRegistry \<Rightarrow> Backend \<Rightarrow> error + Model list \<Rightarrow> BackendRegistry" where
  "Register r b fetched =
     (let r1 = r\<lparr>backends := (backends r)(ID b \<mapsto> b)\<rparr>
      in case fetched of
           Inl err \<Rightarrow> r1
         | Inr ms \<Rightarrow> index_models r1 (ID b) ms)"

text \<open>
  The loop over the model index that \<open>Unregister\<close> and \<open>RefreshModels\<close> both contain:
  every slice is filtered, and a slice that becomes empty is deleted. Go allows deleting
  and overwriting existing keys while ranging over a map, and each key is visited once.
\<close>

definition remove_mappings :: "(string \<rightharpoonup> string list) \<Rightarrow> string \<Rightarrow> (string \<rightharpoonup> string list)" where
  "remove_mappings idx backendID =
     (\<lambda>modelID. case idx modelID of
        None \<Rightarrow> None
      | Some backendIDs \<Rightarrow>
          (let filtered = filter (\<lambda>bid. bid \<noteq> backendID) backendIDs
           in if length filtered = 0 then None else Some filtered))"

definition Unregister :: "BackendRegistry \<Rightarrow> string \<Rightarrow> BackendRegistry" where
  "Unregister r backendID =
     r\<lparr>backends := (backends r)(backendID := None),
       models := remove_mappings (models r) backendID\<rparr>"

definition RefreshModels ::
  "BackendRegistry \<Rightarrow> string \<Rightarrow> error + Model list \<Rightarrow> BackendRegistry \<times> error option" where
  "RefreshModels r backendID fetched =
     (case backends r backendID of
        None \<Rightarrow> (r, Some (BackendNotFound backendID))
      | Some backend \<Rightarrow>
          (let r1 = r\<lparr>models := remove_mappings (models r) backendID\<rparr>
           in case fetched of
                Inl err \<Rightarrow> (r1, Some err)
              | Inr ms \<Rightarrow> (index_models r1 backendID ms, None)))"

datatype registry_op =
  OpRegister Backend "error + Model list"
  | OpUnregister string
  | OpRefreshModels string "error + Model list"

fun apply_op :: "BackendRegistry \<Rightarrow> registry_op \<Rightarrow> BackendRegistry" where
  "apply_op r (OpRegister b fetched) = Register r b fetched"
| "apply_op r (OpUnregister backendID) = Unregister r backendID"
| "apply_op r (OpRefreshModels backendID fetched) = fst (RefreshModels r backendID fetched)"

definition run_ops :: "registry_op list \<Rightarrow> BackendRegistry" where
  "run_ops ops = foldl apply_op NewBackendRegistry ops"


text \<open>
  The invariant of the data model: every backend id in a slice of the model index is a
  key of the backend table.
\<close>

definition registry_sound :: "BackendRegistry \<Rightarrow> bool" where
  "registry_sound r = (\<forall>m ids. models r m = Some ids \<longrightarrow> set ids \<subseteq> dom (backends r))"

section \<open>Session affinity\<close>

text \<open>
  \<open>hashSessionToIndex\<close> feeds the bytes of the session id to Go's hash/fnv New32a
  (FNV-1a, 32 bits: offset basis 0x811c9dc5, prime 0x01000193, for every byte
  \<open>hash ^= byte; hash *= prime\<close> on uint32) and reduces the sum modulo \<open>uint32(count)\<close>.
  The conversion truncates the count \<open>cnt\<close> to 32 bits; a divisor of zero is Go's run-time panic
  "integer divide by zero", the value \<open>None\<close> here.
\<close>

definition offset32 :: "32 word" where
  "offset32 = 0x811c9dc5"

definition prime32 :: "32 word" where
  "prime32 = 0x01000193"

fun sum32a_Write :: "32 word \<Rightarrow> string \<Rightarrow> 32 word" where
  "sum32a_Write hash [] = hash"
| "sum32a_Write hash (c # data) = sum32a_Write ((hash XOR of_char c) * prime32) data"

definition fnv1a_32 :: "string \<Rightarrow> 32 word" where
  "fnv1a_32 sessionID = sum32a_Write offset32 sessionID"

definition hashSessionToIndex :: "string \<Rightarrow> nat \<Rightarrow> nat option" where
  "hashSessionToIndex sessionID cnt =
     (let c = (word_of_nat cnt :: 32 word)
      in if c = 0 then None else Some (unat (fnv1a_32 sessionID mod c)))"

record LookupResult =
  Backend :: Backend
  SessionBroken :: bool

datatype panic = IntegerDivideByZero

text \<open>
  The first-healthy loop that \<open>LookupByModelWithSession\<close> runs for the empty session id.
  It is written out a second time in the source, building the result in place.
\<close>

fun first_healthy_result :: "(string \<rightharpoonup> Backend) \<Rightarrow> string list \<Rightarrow> LookupResult option" where
  "first_healthy_result tbl [] = None"
| "first_healthy_result tbl (bid # rest) =
     (case tbl bid of
        Some backend \<Rightarrow>
          if IsHealthy backend then Some \<lparr>Backend = backend, SessionBroken = False\<rparr>
          else first_healthy_result tbl rest
      | None \<Rightarrow> first_healthy_result tbl rest)"

text \<open>
  The loop that collects \<open>allBackends\<close> and \<open>healthyBackends\<close>: an id without a handle
  is skipped, a handle goes to the first slice, and to the second when it is healthy.
  Both slices are given with their elements in the order of the appends.
\<close>

fun collect_backends ::
  "(string \<rightharpoonup> Backend) \<Rightarrow> string list \<Rightarrow> Backend list \<Rightarrow> Backend list \<Rightarrow> Backend list \<times> Backend list" where
  "collect_backends tbl [] allBackends healthyBackends = (allBackends, healthyBackends)"
| "collect_backends tbl (bid # rest) allBackends healthyBackends =
     (case tbl bid of
        None \<Rightarrow> collect_backends tbl rest allBackends healthyBackends
      | Some backend \<Rightarrow>
          collect_backends tbl rest (allBackends @ [backend])
            (if IsHealthy backend then healthyBackends @ [backend] else healthyBackends))"

text \<open>
  \<open>sort.Slice\<close> with the comparison \<open>a.ID() < b.ID()\<close> yields a permutation that is
  ascending in the id; Go compares strings bytewise, which is the lexicographic order on
  \<open>char list\<close> used here. \<open>sort.Slice\<close> is not stable, so it fixes the result only
  up to the order of handles with equal ids; \<open>sort_key ID\<close> is the stable choice. The
  handles collected for one model come from distinct table keys, and every table key is
  the id of its handle, so in a registry built by \<open>Register\<close> no two of them share an id.
\<close>

definition LookupByModelWithSession ::
  "BackendRegistry \<Rightarrow> string \<Rightarrow> string \<Rightarrow> panic + LookupResult option" where
  "LookupByModelWithSession r modelID sessionID =
     (case models r modelID of
        None \<Rightarrow> Inr None
      | Some backendIDs \<Rightarrow>
          if length backendIDs = 0 then Inr None
          else if sessionID = [] then
            (case first_healthy_result (backends r) backendIDs of
               Some res \<Rightarrow> Inr (Some res)
             | None \<Rightarrow>
                 (case backends r (backendIDs ! 0) of
                    Some backend \<Rightarrow> Inr (Some \<lparr>Backend = backend, SessionBroken = False\<rparr>)
                  | None \<Rightarrow> Inr None))
          else
            (let (all0, healthy0) = collect_backends (backends r) backendIDs [] [];
                 allBackends = sort_key ID all0;
                 healthyBackends = sort_key ID healthy0
             in if length allBackends = 0 then Inr None
                else
                  (case hashSessionToIndex sessionID (length allBackends) of
                     None \<Rightarrow> Inl IntegerDivideByZero
                   | Some preferredIndex \<Rightarrow>
                       (let preferredBackend = allBackends ! preferredIndex
                        in if IsHealthy preferredBackend
                           then Inr (Some \<lparr>Backend = preferredBackend, SessionBroken = False\<rparr>)
                           else if length healthyBackends > 0 then
                             (case hashSessionToIndex sessionID (length healthyBackends) of
                                None \<Rightarrow> Inl IntegerDivideByZero
                              | Some fallbackIndex \<Rightarrow>
                                  Inr (Some \<lparr>Backend = healthyBackends ! fallbackIndex,
                                             SessionBroken = True\<rparr>))
                           else Inr (Some \<lparr>Backend = preferredBackend, SessionBroken = True\<rparr>)))))"

text \<open>The slice of backend ids that the index holds for a model; nil when the key is missing.\<close>

definition mapped_ids :: "BackendRegistry \<Rightarrow> string \<Rightarrow> string list" where
  "mapped_ids r m = (case models r m of None \<Rightarrow> [] | Some ids \<Rightarrow> ids)"

text \<open>
  Two more invariants of the registry: every key of the backend table is the id of its
  handle, and no sequence of the model index holds an id twice.
\<close>

definition registry_keyed :: "BackendRegistry \<Rightarrow> bool" where
  "registry_keyed r = (\<forall>k b. backends r k = Some b \<longrightarrow> ID b = k)"

definition registry_distinct :: "BackendRegistry \<Rightarrow> bool" where
  "registry_distinct r = (\<forall>m. distinct (mapped_ids r m))"

section \<open>A concrete fleet\<close>

text \<open>
  The mock backend of the registry tests: a generic backend on localhost whose model
  list is the single model \<open>test-model\<close>.
\<close>

definition newMockBackend :: "string \<Rightarrow> bool \<Rightarrow> Backend" where
  "newMockBackend i h =
     \<lparr>ID = i, Type = BackendGeneric, BaseURL = ''http://localhost:8080'', IsHealthy = h\<rparr>"

definition mock_model :: "string \<Rightarrow> Model" where
  "mock_model i = \<lparr>Model_ID = i, Model_Object = ''model'', Model_Created = 0, Model_OwnedBy = []\<rparr>"

definition mock_models :: "error + Model list" where
  "mock_models = Inr [mock_model ''test-model'']"

definition fleet_ops :: "registry_op list" where
  "fleet_ops =
     [OpRegister (newMockBackend ''backend-c'' True) mock_models,
      OpRegister (newMockBackend ''backend-a'' True) mock_models,
      OpRegister (newMockBackend ''backend-b'' False) mock_models]"

definition fleet :: BackendRegistry where
  "fleet = run_ops fleet_ops"

text \<open>A fleet in which the first backend registered for the model is the unhealthy one.\<close>

definition fleet_first_down :: BackendRegistry where
  "fleet_first_down =
     run_ops [OpRegister (newMockBackend ''backend-a'' False) mock_models,
              OpRegister (newMockBackend ''backend-b'' True) mock_models,
              OpRegister (newMockBackend ''backend-c'' True) mock_models]"

text \<open>
  A backend registered with two models, and registered again under the same id by a
  handle whose model list holds only the first of them.
\<close>

definition collision_before :: BackendRegistry where
  "collision_before =
     Register NewBackendRegistry (newMockBackend ''backend-a'' True)
       (Inr [mock_model ''model-1'', mock_model ''model-2''])"

definition collision_after :: BackendRegistry where
  "collision_after =
     Register collision_before (newMockBackend ''backend-a'' False) (Inr [mock_model ''model-1''])"

section \<open>The stream producer of the generic backend\<close>

text \<open>
  A stream event as the backends send it on the events channel. The errors that travel
  through the streaming path are values of \<open>stream_error\<close>; \<open>IoEOF\<close> is \<open>io.EOF\<close>.
\<close>

datatype stream_error =
  IoEOF
  | ReadError string
  | ContextError string
  | TransportError string
  | RequestError string
  | MarshalError string
  | StreamRequestFailed string string

record StreamEvent =
  Data :: string
  Err :: "stream_error option"
  Done :: bool

definition newline :: char where
  "newline = CHR 0x0A"

text \<open>
  \<open>strings.TrimSpace\<close> removes the leading and the trailing white space of a string, as
  \<open>unicode.IsSpace\<close> defines it on the runes that the bytes encode in UTF-8: tab, line
  feed, vertical tab, form feed, carriage return, space, U+0085, U+00A0, U+1680, U+2000
  to U+200A, U+2028, U+2029, U+202F, U+205F and U+3000. A byte that starts no valid
  encoding decodes to U+FFFD, which is no space, so trimming stops there. The table lists
  the UTF-8 encodings of the space runes.
\<close>

definition space_encodings :: "string list" where
  "space_encodings =
     [[CHR 0x09], [CHR 0x0A], [CHR 0x0B], [CHR 0x0C], [CHR 0x0D], [CHR 0x20],
      [CHR 0xC2, CHR 0x85], [CHR 0xC2, CHR 0xA0],
      [CHR 0xE1, CHR 0x9A, CHR 0x80],
      [CHR 0xE2, CHR 0x80, CHR 0x80], [CHR 0xE2, CHR 0x80, CHR 0x81],
      [CHR 0xE2, CHR 0x80, CHR 0x82], [CHR 0xE2, CHR 0x80, CHR 0x83],
      [CHR 0xE2, CHR 0x80, CHR 0x84], [CHR 0xE2, CHR 0x80, CHR 0x85],
      [CHR 0xE2, CHR 0x80, CHR 0x86], [CHR 0xE2, CHR 0x80, CHR 0x87],
      [CHR 0xE2, CHR 0x80, CHR 0x88], [CHR 0xE2, CHR 0x80, CHR 0x89],
      [CHR 0xE2, CHR 0x80, CHR 0x8A],
      [CHR 0xE2, CHR 0x80, CHR 0xA8], [CHR 0xE2, CHR 0x80, CHR 0xA9],
      [CHR 0xE2, CHR 0x80, CHR 0xAF],
      [CHR 0xE2, CHR 0x81, CHR 0x9F],
      [CHR 0xE3, CHR 0x80, CHR 0x80]]"

text \<open>The number of bytes of the space rune at the front of the string; zero when there is none.\<close>

definition leading_space :: "string \<Rightarrow> nat" where
  "leading_space s =
     (case find (\<lambda>e. prefix e s) space_encodings of None \<Rightarrow> 0 | Some e \<Rightarrow> length e)"

definition trailing_space :: "string \<Rightarrow> nat" where
  "trailing_space s =
     (case find (\<lambda>e. suffix e s) space_encodings of None \<Rightarrow> 0 | Some e \<Rightarrow> length e)"

function TrimLeft :: "string \<Rightarrow> string" where
  "TrimLeft s = (if leading_space s = 0 then s else TrimLeft (drop (leading_space s) s))"
  by pat_completeness auto
termination
proof (relation "measure length")
  show "wf (measure length)" by simp
next
  fix s :: string
  assume pos: "leading_space s \<noteq> 0"
  then obtain e where f: "find (\<lambda>e. prefix e s) space_encodings = Some e"
    by (cases "find (\<lambda>e. prefix e s) space_encodings") (simp_all add: leading_space_def)
  from f have "prefix e s"
    by (auto simp add: find_Some_iff)
  moreover from f have "leading_space s = length e"
    by (simp add: leading_space_def)
  ultimately have "leading_space s \<le> length s"
    by (simp add: prefix_length_le)
  with pos show "(drop (leading_space s) s, s) \<in> measure length"
    by simp
qed

function TrimRight :: "string \<Rightarrow> string" where
  "TrimRight s =
     (if trailing_space s = 0 then s else TrimRight (take (length s - trailing_space s) s))"
  by pat_completeness auto
termination
proof (relation "measure length")
  show "wf (measure length)" by simp
next
  fix s :: string
  assume pos: "trailing_space s \<noteq> 0"
  then obtain e where f: "find (\<lambda>e. suffix e s) space_encodings = Some e"
    by (cases "find (\<lambda>e. suffix e s) space_encodings") (simp_all add: trailing_space_def)
  from f have "suffix e s"
    by (auto simp add: find_Some_iff)
  moreover from f have "trailing_space s = length e"
    by (simp add: trailing_space_def)
  ultimately have "trailing_space s \<le> length s"
    by (simp add: suffix_length_le)
  with pos show "(take (length s - trailing_space s) s, s) \<in> measure length"
    by simp
qed

declare TrimLeft.simps [simp del] TrimRight.simps [simp del]

definition TrimSpace :: "string \<Rightarrow> string" where
  "TrimSpace s = TrimRight (TrimLeft s)"

text \<open>
  The response body as the producer reads it: the bytes that arrive, and the error that
  ends the reading (\<open>io.EOF\<close> for a body that ends cleanly). \<open>bufio.Reader.ReadString\<close>
  returns the bytes up to and including the first line feed with a nil error, and when
  no line feed is left it returns the remaining bytes together with the error.
\<close>

definition ReadString :: "string \<Rightarrow> stream_error \<Rightarrow> string \<times> stream_error option \<times> string" where
  "ReadString body bodyErr =
     (if newline \<in> set body
      then (takeWhile (\<lambda>c. c \<noteq> newline) body @ [newline], None,
            tl (dropWhile (\<lambda>c. c \<noteq> newline) body))
      else (body, Some bodyErr, []))"

text \<open>
  The goroutine of \<open>streamRequest\<close>. The value is the sequence of events sent on the
  channel before it is closed. \<open>ctx i\<close> is what the non-blocking \<open>select\<close> of iteration
  \<open>i\<close> finds: \<open>Some e\<close> when the context is done with \<open>ctx.Err() = e\<close>. The channel
  buffers 100 events and a send waits while it is full; the receiver is taken to read
  on, so that every send completes.
\<close>

function streamRequest_events ::
  "(nat \<Rightarrow> stream_error option) \<Rightarrow> nat \<Rightarrow> string \<Rightarrow> stream_error \<Rightarrow> StreamEvent list" where
  "streamRequest_events ctx i body bodyErr =
     (case ctx i of
        Some ctxErr \<Rightarrow> [\<lparr>Data = [], Err = Some ctxErr, Done = True\<rparr>]
      | None \<Rightarrow>
          (case ReadString body bodyErr of
             (read, Some err, rest) \<Rightarrow>
               (if err \<noteq> IoEOF
                then [\<lparr>Data = [], Err = Some err, Done = True\<rparr>]
                else [\<lparr>Data = [], Err = None, Done = True\<rparr>])
           | (read, None, rest) \<Rightarrow>
               (let line = TrimSpace read
                in if line = [] \<or> \<not> prefix ''data: '' line
                   then streamRequest_events ctx (Suc i) rest bodyErr
                   else
                     (let data = drop (length ''data: '') line
                      in if data = ''[DONE]''
                         then [\<lparr>Data = data, Err = None, Done = True\<rparr>]
                         else \<lparr>Data = data, Err = None, Done = False\<rparr>
                                # streamRequest_events ctx (Suc i) rest bodyErr))))"
  by pat_completeness auto
termination
proof (relation "measure (\<lambda>(ctx, i, body, bodyErr). length body)")
  have shorter: "length rest < length body"
    if "ReadString body bodyErr = (read, None, rest)"
    for body bodyErr read rest
  proof -
    from that have nl: "newline \<in> set body"
      and rest: "rest = tl (dropWhile (\<lambda>c. c \<noteq> newline) body)"
      by (auto simp add: ReadString_def split: if_splits)
    from nl have "dropWhile (\<lambda>c. c \<noteq> newline) body \<noteq> []"
      by simp
    then have "length (tl (dropWhile (\<lambda>c. c \<noteq> newline) body)) < length body"
      using length_dropWhile_le [of "\<lambda>c. c \<noteq> newline" body]
      by (cases "dropWhile (\<lambda>c. c \<noteq> newline) body") auto
    with rest show ?thesis by simp
  qed
  show "wf (measure (\<lambda>(ctx, i, body, bodyErr). length body))" by simp
  show "((ctx, Suc i, rest, bodyErr), (ctx, i, body, bodyErr))
     \<in> measure (\<lambda>(ctx, i, body, bodyErr). length body)"
    if "(read, y) = ReadString body bodyErr" and "(err, rest) = y" and "err = None"
    for ctx :: "nat \<Rightarrow> stream_error option" and i body bodyErr read y err rest
    using that shorter [of body bodyErr read rest] by simp
  show "((ctx, Suc i, rest, bodyErr), (ctx, i, body, bodyErr))
     \<in> measure (\<lambda>(ctx, i, body, bodyErr). length body)"
    if "(read, y) = ReadString body bodyErr" and "(err, rest) = y" and "err = None"
    for ctx :: "nat \<Rightarrow> stream_error option" and i body bodyErr read y err rest
    using that shorter [of body bodyErr read rest] by simp
qed

declare streamRequest_events.simps [simp del]

text \<open>
  The lines of a body, each with its line feed; bytes after the last line feed form no
  line. The payloads are what follows \<open>data: \<close> on the trimmed lines that begin with it.
\<close>

fun complete_lines :: "string \<Rightarrow> string \<Rightarrow> string list" where
  "complete_lines cur [] = []"
| "complete_lines cur (c # cs) =
     (if c = newline then (cur @ [c]) # complete_lines [] cs
      else complete_lines (cur @ [c]) cs)"

definition sse_payloads :: "string \<Rightarrow> string list" where
  "sse_payloads body =
     map (drop (length ''data: ''))
       (filter (prefix ''data: '') (map TrimSpace (complete_lines [] body)))"

text \<open>The four shapes of event that the producer sends.\<close>

definition data_event :: "string \<Rightarrow> StreamEvent" where
  "data_event payload = \<lparr>Data = payload, Err = None, Done = False\<rparr>"

definition done_event :: StreamEvent where
  "done_event = \<lparr>Data = ''[DONE]'', Err = None, Done = True\<rparr>"

definition eof_event :: StreamEvent where
  "eof_event = \<lparr>Data = [], Err = None, Done = True\<rparr>"

definition error_event :: "stream_error \<Rightarrow> StreamEvent" where
  "error_event err = \<lparr>Data = [], Err = Some err, Done = True\<rparr>"

text \<open>The polls of a context that is never cancelled.\<close>

definition background :: "nat \<Rightarrow> stream_error option" where
  "background i = None"

text \<open>
  The payloads of a list of lines, and the events that reading these lines produces when
  the reading then ends with the event \<open>final\<close>: one data event for every payload before
  the first \<open>[DONE]\<close>, then the done event of a \<open>[DONE]\<close> payload if there is one, and
  \<open>final\<close> otherwise.
\<close>

definition line_payloads :: "string list \<Rightarrow> string list" where
  "line_payloads ls =
     map (drop (length ''data: '')) (filter (prefix ''data: '') (map TrimSpace ls))"

definition line_events :: "string list \<Rightarrow> StreamEvent \<Rightarrow> StreamEvent list" where
  "line_events ls final =
     map data_event (takeWhile (\<lambda>payload. payload \<noteq> ''[DONE]'') (line_payloads ls))
       @ [if ''[DONE]'' \<in> set (line_payloads ls) then done_event else final]"

text \<open>
  The poll at which a context is first found done among the polls \<open>i\<close> to \<open>i + n\<close>,
  counted from \<open>i\<close>, with the error of the context at that poll.
\<close>

fun first_cancel :: "(nat \<Rightarrow> stream_error option) \<Rightarrow> nat \<Rightarrow> nat \<Rightarrow> (nat \<times> stream_error) option" where
  "first_cancel ctx i 0 = (case ctx i of Some e \<Rightarrow> Some (0, e) | None \<Rightarrow> None)"
| "first_cancel ctx i (Suc n) =
     (case ctx i of
        Some e \<Rightarrow> Some (0, e)
      | None \<Rightarrow> map_option (\<lambda>(j, e). (Suc j, e)) (first_cancel ctx (Suc i) n))"


section \<open>Opening a stream\<close>

text \<open>
  What the network gives to one call of \<open>streamRequest\<close>: the polls of the context, the
  error of \<open>http.NewRequestWithContext\<close> for an endpoint if any, and the answer of
  \<open>httpClient.Do\<close> to a POST of a body to an endpoint, which is a transport error or a
  response with its status and body.
\<close>

record Response =
  StatusCode :: int
  Status :: string
  Body :: string
  BodyErr :: stream_error

record Upstream =
  ctxDone :: "nat \<Rightarrow> stream_error option"
  newRequest :: "string \<Rightarrow> stream_error option"
  httpDo :: "string \<Rightarrow> string \<Rightarrow> stream_error + Response"

definition StatusOK :: int where
  "StatusOK = 200"

text \<open>
  \<open>streamRequest\<close> returns an error and no channel (\<open>Inl\<close>), or the channel, given by the
  events that its goroutine sends before closing it (\<open>Inr\<close>).
\<close>

definition streamRequest :: "Upstream \<Rightarrow> string \<Rightarrow> string \<Rightarrow> stream_error + StreamEvent list" where
  "streamRequest up endpoint body =
     (case newRequest up endpoint of
        Some err \<Rightarrow> Inl err
      | None \<Rightarrow>
          (case httpDo up endpoint body of
             Inl err \<Rightarrow> Inl err
           | Inr resp \<Rightarrow>
               if StatusCode resp \<noteq> StatusOK
               then Inl (StreamRequestFailed (Status resp) (Body resp))
               else Inr (streamRequest_events (ctxDone up) 0 (Body resp) (BodyErr resp))))"

text \<open>
  The request envelopes of package types. Pointer fields are options, slices are lists,
  the nil map is the empty map; the payload types that the router never inspects
  (messages, tools, floating-point numbers, values of type \<open>any\<close>) are left opaque.
\<close>

typedecl float64
typedecl json_any
typedecl ChatMessage
typedecl Tool
typedecl ResponseFormat

record StreamOptions =
  IncludeUsage :: bool

record ChatCompletionRequest =
  Chat_Model :: string
  Chat_Messages :: "ChatMessage list"
  Chat_Temperature :: "float64 option"
  Chat_TopP :: "float64 option"
  Chat_N :: "int option"
  Chat_Stream :: bool
  Chat_StreamOptions :: "StreamOptions option"
  Chat_Stop :: "string list"
  Chat_MaxTokens :: "int option"
  Chat_PresencePenalty :: "float64 option"
  Chat_FrequencyPenalty :: "float64 option"
  Chat_LogitBias :: "string \<rightharpoonup> int"
  Chat_User :: string
  Chat_Seed :: "int option"
  Chat_Tools :: "Tool list"
  Chat_ToolChoice :: "json_any option"
  Chat_ResponseFormat :: "ResponseFormat option"

record CompletionRequest =
  Comp_Model :: string
  Comp_Prompt :: "json_any option"
  Comp_MaxTokens :: "int option"
  Comp_Temperature :: "float64 option"
  Comp_TopP :: "float64 option"
  Comp_N :: "int option"
  Comp_Stream :: bool
  Comp_Stop :: "string list"
  Comp_PresencePenalty :: "float64 option"
  Comp_FrequencyPenalty :: "float64 option"
  Comp_LogitBias :: "string \<rightharpoonup> int"
  Comp_User :: string
  Comp_Seed :: "int option"
  Comp_Echo :: bool
  Comp_BestOf :: "int option"
  Comp_Logprobs :: "int option"

text \<open>
  The two streaming calls take a pointer to the request of the caller, so the request
  after the call is part of the result. \<open>json.Marshal\<close> is a parameter: it yields the
  bytes of the body or an error.
\<close>

definition ChatCompletionStream ::
  "(ChatCompletionRequest \<Rightarrow> stream_error + string) \<Rightarrow> Upstream \<Rightarrow> ChatCompletionRequest
     \<Rightarrow> ChatCompletionRequest \<times> (stream_error + StreamEvent list)" where
  "ChatCompletionStream marshal up chatReq =
     (let chatReq1 = chatReq\<lparr>Chat_Stream := True\<rparr>
      in case marshal chatReq1 of
           Inl err \<Rightarrow> (chatReq1, Inl err)
         | Inr body \<Rightarrow> (chatReq1, streamRequest up ''/v1/chat/completions'' body))"

definition CompletionStream ::
  "(CompletionRequest \<Rightarrow> stream_error + string) \<Rightarrow> Upstream \<Rightarrow> CompletionRequest
     \<Rightarrow> CompletionRequest \<times> (stream_error + StreamEvent list)" where
  "CompletionStream marshal up compReq =
     (let compReq1 = compReq\<lparr>Comp_Stream := True\<rparr>
      in case marshal compReq1 of
           Inl err \<Rightarrow> (compReq1, Inl err)
         | Inr body \<Rightarrow> (compReq1, streamRequest up ''/v1/completions'' body))"

section \<open>Construction of the generic backend\<close>

text \<open>
  The struct GenericBackend. The HTTP client is a pointer, so it may be nil; a client is
  known here by its timeout in nanoseconds. The base URL is kept as the text that
  \<open>url.Parse\<close> accepted; the parser is a parameter of the constructor.
\<close>

record HTTPClient =
  Timeout :: int

record GenericBackend =
  gb_id :: string
  gb_backendType :: BackendType
  gb_baseURL :: string
  gb_httpClient :: "HTTPClient option"
  gb_healthy :: bool
  gb_models :: "Model list"

datatype backend_error = InvalidBaseURL string

definition Minute :: int where
  "Minute = 60 * 1000000000"

text \<open>The options that package backends exports: each one assigns one field.\<close>

datatype GenericBackendOption =
  WithHTTPClient "HTTPClient option"
  | WithBackendType BackendType

fun apply_option :: "GenericBackend \<Rightarrow> GenericBackendOption \<Rightarrow> GenericBackend" where
  "apply_option b (WithHTTPClient client) = b\<lparr>gb_httpClient := client\<rparr>"
| "apply_option b (WithBackendType t) = b\<lparr>gb_backendType := t\<rparr>"

definition GenericBackend_IsHealthy :: "GenericBackend \<Rightarrow> bool" where
  "GenericBackend_IsHealthy b = gb_healthy b"

definition NewGenericBackend ::
  "(string \<Rightarrow> string + string) \<Rightarrow> string \<Rightarrow> string \<Rightarrow> GenericBackendOption list
     \<Rightarrow> backend_error + GenericBackend" where
  "NewGenericBackend url_Parse ident baseURL opts =
     (case url_Parse baseURL of
        Inl err \<Rightarrow> Inl (InvalidBaseURL err)
      | Inr u \<Rightarrow>
          (let b0 = \<lparr>gb_id = ident, gb_backendType = BackendGeneric, gb_baseURL = u,
                     gb_httpClient = Some \<lparr>Timeout = 5 * Minute\<rparr>,
                     gb_healthy = False, gb_models = []\<rparr>;
               b1 = b0\<lparr>gb_healthy := True\<rparr>
           in Inr (foldl apply_option b1 opts)))"

section \<open>The relay to the client\<close>

text \<open>
  The SSE writer of package streaming on top of the response writer of the client. The
  client decides which writes succeed: \<open>accepts n\<close> tells whether write number \<open>n\<close>
  (counted from zero) goes through. \<open>attempts\<close> lists every chunk handed to the response
  writer, \<open>written\<close> those that were accepted; a failed write delivers nothing.
\<close>

record Writer =
  accepts :: "nat \<Rightarrow> bool"
  header :: "(string \<times> string) list"
  attempts :: "string list"
  written :: "string list"

datatype write_error = WriteFailed

definition WriteHeaders :: "Writer \<Rightarrow> Writer" where
  "WriteHeaders s =
     s\<lparr>header := [(''Content-Type'', ''text/event-stream''), (''Cache-Control'', ''no-cache''),
                   (''Connection'', ''keep-alive''), (''X-Accel-Buffering'', ''no'')]\<rparr>"

definition sse_chunk :: "string \<Rightarrow> string" where
  "sse_chunk payload = ''data: '' @ payload @ [newline, newline]"

definition WriteData :: "Writer \<Rightarrow> string \<Rightarrow> Writer \<times> write_error option" where
  "WriteData s payload =
     (if accepts s (length (attempts s))
      then (s\<lparr>attempts := attempts s @ [sse_chunk payload],
              written := written s @ [sse_chunk payload]\<rparr>, None)
      else (s\<lparr>attempts := attempts s @ [sse_chunk payload]\<rparr>, Some WriteFailed))"

definition WriteDone :: "Writer \<Rightarrow> Writer \<times> write_error option" where
  "WriteDone s = WriteData s ''[DONE]''"

text \<open>
  The loop of \<open>handleStream\<close> over the events of the channel; the second component is
  the flag \<open>streamEnded\<close>. The list ends where the channel is closed.
\<close>

fun handleStream_loop :: "Writer \<Rightarrow> StreamEvent list \<Rightarrow> Writer \<times> bool" where
  "handleStream_loop sse [] = (sse, False)"
| "handleStream_loop sse (event # rest) =
     (if Err event \<noteq> None then (sse, False)
      else if Done event then (fst (WriteDone sse), True)
      else if Data event \<noteq> [] then
        (case WriteData sse (Data event) of
           (sse1, Some err) \<Rightarrow> (sse1, False)
         | (sse1, None) \<Rightarrow> handleStream_loop sse1 rest)
      else handleStream_loop sse rest)"

text \<open>
  The outcome of a streaming handler: an error response with its status code, written
  before any SSE header, or the writer after the stream.
\<close>

datatype relay_outcome =
  ErrorResponse int string
  | Streamed Writer

definition handleStream ::
  "Writer option \<Rightarrow> stream_error + StreamEvent list \<Rightarrow> relay_outcome" where
  "handleStream newWriter streamResult =
     (case newWriter of
        None \<Rightarrow> ErrorResponse 500 ''streaming not supported''
      | Some sse \<Rightarrow>
          (case streamResult of
             Inl err \<Rightarrow> ErrorResponse 500 ''backend error''
           | Inr events \<Rightarrow>
               (let sse1 = WriteHeaders sse;
                    (sse2, streamEnded) = handleStream_loop sse1 events
                in if \<not> streamEnded then Streamed (fst (WriteDone sse2))
                   else Streamed sse2)))"

text \<open>
  The earlier revision of the streaming handler that router.go keeps,
  \<open>handleChatCompletionsStream\<close> (\<open>handleCompletionsStream\<close> has the same body): it
  writes the terminator only for an event that is done and carries \<open>[DONE]\<close>, and writes
  nothing after the loop.
\<close>

fun handleChatCompletionsStream_loop :: "Writer \<Rightarrow> StreamEvent list \<Rightarrow> Writer" where
  "handleChatCompletionsStream_loop sse [] = sse"
| "handleChatCompletionsStream_loop sse (event # rest) =
     (if Err event \<noteq> None then sse
      else if Done event \<and> Data event = ''[DONE]'' then fst (WriteDone sse)
      else if Data event \<noteq> [] then
        (case WriteData sse (Data event) of
           (sse1, Some err) \<Rightarrow> sse1
         | (sse1, None) \<Rightarrow> handleChatCompletionsStream_loop sse1 rest)
      else handleChatCompletionsStream_loop sse rest)"

definition handleChatCompletionsStream ::
  "Writer option \<Rightarrow> stream_error + StreamEvent list \<Rightarrow> relay_outcome" where
  "handleChatCompletionsStream newWriter streamResult =
     (case newWriter of
        None \<Rightarrow> ErrorResponse 500 ''streaming not supported''
      | Some sse \<Rightarrow>
          (case streamResult of
             Inl err \<Rightarrow> ErrorResponse 500 ''backend error''
           | Inr events \<Rightarrow> Streamed (handleChatCompletionsStream_loop (WriteHeaders sse) events)))"

text \<open>The number of times the terminator chunk was handed to the client.\<close>

definition terminators :: "relay_outcome \<Rightarrow> nat" where
  "terminators out =
     (case out of
        ErrorResponse code msg \<Rightarrow> 0
      | Streamed sse \<Rightarrow> count_list (attempts sse) (sse_chunk ''[DONE]''))"

text \<open>A client whose response writer can flush and accepts every write.\<close>

definition good_client :: "Writer option" where
  "good_client = Some \<lparr>accepts = (\<lambda>n. True), header = [], attempts = [], written = []\<rparr>"






section \<open>Concrete streams and requests\<close>

text \<open>
  A body with a data line, a blank line, a comment line, an indented data line that ends
  with carriage return and line feed, the terminator line and a data line after it; and
  a body that is cut in the middle of its terminator line.
\<close>

definition sse_body :: string where
  "sse_body = ''data: hello'' @ [newline] @ [newline] @ '': ping'' @ [newline]
     @ ''  data: world  '' @ [CHR 0x0D, newline] @ ''data: [DONE]'' @ [newline] @ ''data: late'' @ [newline]"

definition cut_body :: string where
  "cut_body = ''event: x'' @ [newline] @ ''data: hello'' @ [newline] @ ''data: [DONE]''"

text \<open>An upstream server that answers every request with the given status and body.\<close>

definition server :: "int \<Rightarrow> string \<Rightarrow> string \<Rightarrow> Upstream" where
  "server code status body =
     \<lparr>ctxDone = background, newRequest = (\<lambda>endpoint. None),
      httpDo = (\<lambda>endpoint payload. Inr \<lparr>StatusCode = code, Status = status, Body = body, BodyErr = IoEOF\<rparr>)\<rparr>"

text \<open>A URL parser that rejects the control character DEL, as \<open>url.Parse\<close> does.\<close>

definition parse_any :: "string \<Rightarrow> string + string" where
  "parse_any s = (if CHR 0x7F \<in> set s then Inl ''invalid control character in URL'' else Inr s)"

definition chat_request :: ChatCompletionRequest where
  "chat_request =
     \<lparr>Chat_Model = ''test-model'', Chat_Messages = [], Chat_Temperature = None, Chat_TopP = None,
      Chat_N = None, Chat_Stream = False, Chat_StreamOptions = None, Chat_Stop = [],
      Chat_MaxTokens = Some 16, Chat_PresencePenalty = None, Chat_FrequencyPenalty = None,
      Chat_LogitBias = Map.empty, Chat_User = ''u'', Chat_Seed = None, Chat_Tools = [],
      Chat_ToolChoice = None, Chat_ResponseFormat = None\<rparr>"

definition comp_request :: CompletionRequest where
  "comp_request =
     \<lparr>Comp_Model = ''test-model'', Comp_Prompt = None, Comp_MaxTokens = None,
      Comp_Temperature = None, Comp_TopP = None, Comp_N = None, Comp_Stream = False,
      Comp_Stop = [], Comp_PresencePenalty = None, Comp_FrequencyPenalty = None,
      Comp_LogitBias = Map.empty, Comp_User = [], Comp_Seed = None, Comp_Echo = False,
      Comp_BestOf = None, Comp_Logprobs = None\<rparr>"

definition marshal_fails :: "'a \<Rightarrow> stream_error + string" where
  "marshal_fails req = Inl (MarshalError ''json: unsupported value'')"

text \<open>
  A body whose only line is indented, a body that is a terminator line without its line
  feed, and a context that is found cancelled from poll \<open>n\<close> on.
\<close>

definition indented_body :: string where
  "indented_body = ''  data: x'' @ [newline]"

definition unterminated_body :: string where
  "unterminated_body = ''data: [DONE]''"

definition cancelled_from :: "nat \<Rightarrow> nat \<Rightarrow> stream_error option" where
  "cancelled_from n i = (if n \<le> i then Some (ContextError ''context canceled'') else None)"

section \<open>Properties of the lookups\<close>

lemma first_healthy_find:
  "first_healthy tbl ids = find IsHealthy (List.map_filter tbl ids)"
  by (induction ids) (simp_all split: option.splits)

text \<open>
  Claim C5. \<open>LookupByModel m\<close> scans the backend ids mapped to \<open>m\<close> in insertion order and
  returns the first backend that is healthy; when none is healthy it returns the backend
  stored under the first id of the sequence, whatever its health; when \<open>m\<close> is not in the
  index, or maps to the empty sequence, it returns no backend.
\<close>

theorem LookupByModel_first_healthy:
  "LookupByModel r m =
     (case models r m of
        None \<Rightarrow> None
      | Some [] \<Rightarrow> None
      | Some (bid # rest) \<Rightarrow>
          (case find IsHealthy (present_backends r (bid # rest)) of
             Some b \<Rightarrow> Some b
           | None \<Rightarrow> backends r bid))"
  by (simp add: LookupByModel_def present_backends_def first_healthy_find
      split: option.splits list.splits)

theorem LookupByModel_first_healthy_witness:
  "LookupByModel fleet_first_down ''test-model'' = Some (newMockBackend ''backend-b'' True)
   \<and> find IsHealthy (present_backends fleet_first_down [''backend-a'', ''backend-b'', ''backend-c''])
       = Some (newMockBackend ''backend-b'' True)"
proof -
  have m: "models fleet_first_down ''test-model'' = Some [''backend-a'', ''backend-b'', ''backend-c'']"
    by code_simp
  have f: "find IsHealthy (present_backends fleet_first_down [''backend-a'', ''backend-b'', ''backend-c''])
       = Some (newMockBackend ''backend-b'' True)"
    by code_simp
  show ?thesis
    using LookupByModel_first_healthy [of fleet_first_down "''test-model''"]
    by (simp add: m f)
qed


section \<open>Properties of the session-affinity lookup\<close>

lemma collect_backends_eq:
  "collect_backends tbl ids a h =
     (a @ List.map_filter tbl ids, h @ filter IsHealthy (List.map_filter tbl ids))"
  by (induction ids arbitrary: a h) (simp_all split: option.splits)

lemma unat_mod_word_of_nat:
  assumes "0 < n" "n < 2 ^ 32"
  shows "(word_of_nat n :: 32 word) \<noteq> 0 \<and> unat (w mod (word_of_nat n :: 32 word)) = unat w mod n"
  using assms
  by (auto simp add: unat_mod unat_of_nat word_of_nat_eq_0_iff take_bit_nat_eq_self dest: nat_dvd_not_less)

lemma hashSessionToIndex_mod:
  "0 < n \<Longrightarrow> n < 2 ^ 32 \<Longrightarrow> hashSessionToIndex s n = Some (unat (fnv1a_32 s) mod n)"
  using unat_mod_word_of_nat [of n "fnv1a_32 s"] by (simp add: hashSessionToIndex_def Let_def)

lemma first_healthy_result_eq:
  "first_healthy_result tbl ids =
     map_option (\<lambda>b. \<lparr>Backend = b, SessionBroken = False\<rparr>) (first_healthy tbl ids)"
  by (induction ids) (simp_all split: option.splits)

lemma length_map_filter_le: "length (List.map_filter f xs) \<le> length xs"
  by (induction xs) (simp_all split: option.splits)

text \<open>
  Claim C6. For every registry state and model, \<open>LookupByModelWithSession\<close> with the empty
  session id returns the backend that \<open>LookupByModel\<close> returns, with the same found or
  not-found outcome, and \<open>SessionBroken\<close> is false.
\<close>

theorem LookupByModelWithSession_empty_session:
  "LookupByModelWithSession r m [] =
     Inr (map_option (\<lambda>b. \<lparr>Backend = b, SessionBroken = False\<rparr>) (LookupByModel r m))"
  by (simp add: LookupByModelWithSession_def LookupByModel_def first_healthy_result_eq
      split: option.splits)

theorem LookupByModelWithSession_empty_session_witness:
  "LookupByModelWithSession fleet_first_down ''test-model'' [] =
     Inr (Some \<lparr>Backend = newMockBackend ''backend-b'' True, SessionBroken = False\<rparr>)"
proof -
  have l: "LookupByModel fleet_first_down ''test-model'' = Some (newMockBackend ''backend-b'' True)"
    by code_simp
  show ?thesis
    using LookupByModelWithSession_empty_session [of fleet_first_down "''test-model''"]
    by (simp add: l)
qed


text \<open>
  Claim C1. For a non-empty session id \<open>s\<close>: let \<open>all\<close> be the backends mapped to the
  model that exist in the backend table, ascending by id, and \<open>healthy\<close> the healthy ones
  among them in the same order. If \<open>all\<close> is empty there is no backend. Otherwise the
  preferred backend is \<open>all[fnv1a_32(s) mod |all|]\<close>; it is returned unbroken when healthy;
  else \<open>healthy[fnv1a_32(s) mod |healthy|]\<close> is returned broken when there is a healthy
  backend; else the preferred backend is returned broken. The slice lengths are converted
  to uint32 by the code, so the id sequence is taken shorter than \<open>2^32\<close>.
\<close>

theorem LookupByModelWithSession_session:
  assumes "s \<noteq> []" and "length (mapped_ids r m) < 2 ^ 32"
  shows "LookupByModelWithSession r m s =
     Inr (let all = sort_key ID (present_backends r (mapped_ids r m));
              healthy = filter IsHealthy all;
              h = unat (fnv1a_32 s)
          in if all = [] then None
             else let preferred = all ! (h mod length all)
                  in if IsHealthy preferred
                     then Some \<lparr>Backend = preferred, SessionBroken = False\<rparr>
                     else if healthy \<noteq> []
                     then Some \<lparr>Backend = healthy ! (h mod length healthy), SessionBroken = True\<rparr>
                     else Some \<lparr>Backend = preferred, SessionBroken = True\<rparr>)"
proof (cases "models r m")
  case None
  then show ?thesis
    by (simp add: LookupByModelWithSession_def mapped_ids_def present_backends_def)
next
  case (Some ids)
  define all where "all = sort_key ID (List.map_filter (backends r) ids)"
  define healthy where "healthy = filter IsHealthy all"
  have hs: "sort_key ID (filter IsHealthy (List.map_filter (backends r) ids)) = healthy"
    by (simp add: healthy_def all_def filter_sort)
  have len_ids: "length ids < 2 ^ 32"
    using assms(2) Some by (simp add: mapped_ids_def)
  have len_all: "length all < 2 ^ 32"
    unfolding all_def length_sort by (rule le_less_trans [OF length_map_filter_le len_ids])
  have len_h: "length healthy < 2 ^ 32"
    unfolding healthy_def by (rule le_less_trans [OF length_filter_le len_all])
  have ia: "all \<noteq> [] \<Longrightarrow> hashSessionToIndex s (length all) = Some (unat (fnv1a_32 s) mod length all)"
    using len_all by (simp add: hashSessionToIndex_mod)
  have ih: "healthy \<noteq> [] \<Longrightarrow> hashSessionToIndex s (length healthy) = Some (unat (fnv1a_32 s) mod length healthy)"
    using len_h by (simp add: hashSessionToIndex_mod)
  have empty: "ids = [] \<Longrightarrow> all = []"
    by (simp add: all_def)
  have lhs: "LookupByModelWithSession r m s =
     (if ids = [] then Inr None
      else if all = [] then Inr None
      else (case hashSessionToIndex s (length all) of
              None \<Rightarrow> Inl IntegerDivideByZero
            | Some preferredIndex \<Rightarrow>
                (let preferredBackend = all ! preferredIndex
                 in if IsHealthy preferredBackend
                    then Inr (Some \<lparr>Backend = preferredBackend, SessionBroken = False\<rparr>)
                    else if 0 < length healthy then
                      (case hashSessionToIndex s (length healthy) of
                         None \<Rightarrow> Inl IntegerDivideByZero
                       | Some fallbackIndex \<Rightarrow>
                           Inr (Some \<lparr>Backend = healthy ! fallbackIndex, SessionBroken = True\<rparr>))
                    else Inr (Some \<lparr>Backend = preferredBackend, SessionBroken = True\<rparr>))))"
    using assms(1) Some
    by (simp add: LookupByModelWithSession_def collect_backends_eq hs all_def [symmetric])
  have rhs: "sort_key ID (present_backends r (mapped_ids r m)) = all"
    using Some by (simp add: all_def present_backends_def mapped_ids_def)
  show ?thesis
    unfolding lhs rhs
    using ia ih empty unfolding healthy_def by (auto simp add: Let_def)
qed

theorem LookupByModelWithSession_session_witness:
  "''session-123'' \<noteq> [] \<and> length (mapped_ids fleet ''test-model'') < 2 ^ 32 \<and>
   LookupByModelWithSession fleet ''test-model'' ''session-123'' =
     Inr (Some \<lparr>Backend = newMockBackend ''backend-a'' True, SessionBroken = True\<rparr>)"
proof -
  have s: "''session-123'' \<noteq> []" by simp
  have ids: "mapped_ids fleet ''test-model'' = [''backend-c'', ''backend-a'', ''backend-b'']"
    by code_simp
  have l: "length (mapped_ids fleet ''test-model'') < 2 ^ 32"
    unfolding ids by simp
  have srt: "sort_key ID (present_backends fleet (mapped_ids fleet ''test-model'')) =
     [newMockBackend ''backend-a'' True, newMockBackend ''backend-b'' False,
      newMockBackend ''backend-c'' True]"
    by code_simp
  have h: "fnv1a_32 ''session-123'' = 1890390010"
    by (simp add: fnv1a_32_def offset32_def prime32_def)
  show ?thesis
    using l LookupByModelWithSession_session [OF s l]
    unfolding srt h
    by (simp add: newMockBackend_def numeral_2_eq_2 [symmetric] numeral_3_eq_3 [symmetric])
qed

section \<open>Soundness of the model index\<close>

lemma backends_addModelMapping [simp]: "backends (addModelMapping r m b) = backends r"
  by (simp add: addModelMapping_def Let_def)

lemma backends_index_models [simp]: "backends (index_models r b ms) = backends r"
  by (induction ms arbitrary: r) simp_all

lemma models_addModelMapping:
  "models (addModelMapping r m b) m' =
     (if m' = m \<and> b \<notin> set (mapped_ids r m) then Some (mapped_ids r m @ [b]) else models r m')"
  by (cases "models r m") (simp_all add: addModelMapping_def mapped_ids_def Let_def)

lemma sound_mapped_ids:
  "registry_sound r \<Longrightarrow> set (mapped_ids r m) \<subseteq> dom (backends r)"
  by (cases "models r m") (simp_all add: registry_sound_def mapped_ids_def)

lemma sound_addModelMapping:
  assumes "registry_sound r" and "b \<in> dom (backends r)"
  shows "registry_sound (addModelMapping r m b)"
  unfolding registry_sound_def
proof (intro allI impI)
  fix m' ids
  assume a: "models (addModelMapping r m b) m' = Some ids"
  have old: "set (mapped_ids r m) \<subseteq> dom (backends r)"
    by (rule sound_mapped_ids [OF assms(1)])
  show "set ids \<subseteq> dom (backends (addModelMapping r m b))"
  proof (cases "m' = m \<and> b \<notin> set (mapped_ids r m)")
    case True
    with a have "ids = mapped_ids r m @ [b]" by (simp add: models_addModelMapping)
    with old assms(2) show ?thesis by auto
  next
    case False
    with a have "models r m' = Some ids" by (simp add: models_addModelMapping)
    with assms(1) show ?thesis unfolding registry_sound_def by auto
  qed
qed

lemma sound_index_models:
  "registry_sound r \<Longrightarrow> b \<in> dom (backends r) \<Longrightarrow> registry_sound (index_models r b ms)"
  by (induction ms arbitrary: r) (simp_all add: sound_addModelMapping)

lemma remove_mappings_subset:
  "remove_mappings idx b m = Some ids \<Longrightarrow> \<exists>ids0. idx m = Some ids0 \<and> set ids = set ids0 - {b}"
  by (auto simp add: remove_mappings_def Let_def split: option.splits if_splits)

lemma sound_Register: "registry_sound r \<Longrightarrow> registry_sound (Register r b fetched)"
proof -
  assume s: "registry_sound r"
  let ?r1 = "r\<lparr>backends := (backends r)(ID b \<mapsto> b)\<rparr>"
  have s1: "registry_sound ?r1"
    using s by (auto simp add: registry_sound_def)
  have d: "ID b \<in> dom (backends ?r1)" by simp
  show ?thesis
    using s1 sound_index_models [OF s1 d] by (simp add: Register_def Let_def split: sum.splits)
qed

lemma sound_prune:
  assumes "registry_sound r"
  shows "registry_sound (r\<lparr>models := remove_mappings (models r) b\<rparr>)"
  unfolding registry_sound_def
proof (intro allI impI)
  fix m ids
  assume "models (r\<lparr>models := remove_mappings (models r) b\<rparr>) m = Some ids"
  then have "remove_mappings (models r) b m = Some ids" by simp
  then obtain ids0 where i: "models r m = Some ids0" and e: "set ids = set ids0 - {b}"
    using remove_mappings_subset by blast
  from assms i have "set ids0 \<subseteq> dom (backends r)"
    unfolding registry_sound_def by blast
  with e show "set ids \<subseteq> dom (backends (r\<lparr>models := remove_mappings (models r) b\<rparr>))"
    by auto
qed

lemma sound_Unregister:
  assumes "registry_sound r"
  shows "registry_sound (Unregister r b)"
  unfolding registry_sound_def
proof (intro allI impI)
  fix m ids
  assume "models (Unregister r b) m = Some ids"
  then have "remove_mappings (models r) b m = Some ids" by (simp add: Unregister_def)
  then obtain ids0 where i: "models r m = Some ids0" and e: "set ids = set ids0 - {b}"
    using remove_mappings_subset by blast
  from assms i have "set ids0 \<subseteq> dom (backends r)"
    unfolding registry_sound_def by blast
  with e show "set ids \<subseteq> dom (backends (Unregister r b))"
    by (auto simp add: Unregister_def)
qed

lemma sound_RefreshModels: "registry_sound r \<Longrightarrow> registry_sound (fst (RefreshModels r b fetched))"
proof (cases "backends r b")
  case None
  assume "registry_sound r"
  with None show ?thesis by (simp add: RefreshModels_def)
next
  case (Some h)
  assume s: "registry_sound r"
  let ?r1 = "r\<lparr>models := remove_mappings (models r) b\<rparr>"
  have d: "b \<in> dom (backends ?r1)" using Some by auto
  show ?thesis
    using Some sound_prune [OF s, of b] sound_index_models [OF sound_prune [OF s, of b] d]
    by (simp add: RefreshModels_def Let_def split: sum.splits)
qed

lemma sound_apply_op: "registry_sound r \<Longrightarrow> registry_sound (apply_op r op)"
  by (cases op) (simp_all add: sound_Register sound_Unregister sound_RefreshModels)

lemma sound_foldl: "registry_sound r \<Longrightarrow> registry_sound (foldl apply_op r ops)"
  by (induction ops arbitrary: r) (simp_all add: sound_apply_op)

lemma sound_New: "registry_sound NewBackendRegistry"
  by (simp add: registry_sound_def NewBackendRegistry_def)

text \<open>
  Claim C4 (registry soundness). After any finite sequence of Register, Unregister and
  RefreshModels operations on the empty registry, whatever the model fetches return,
  every backend id in the sequence of any model has an entry in the backend table.
\<close>

theorem registry_soundness:
  assumes "models (run_ops ops) m = Some ids" and "bid \<in> set ids"
  shows "\<exists>b. backends (run_ops ops) bid = Some b"
proof -
  have "registry_sound (run_ops ops)"
    unfolding run_ops_def by (rule sound_foldl [OF sound_New])
  with assms show ?thesis
    by (auto simp add: registry_sound_def)
qed

theorem registry_soundness_witness:
  "models (run_ops fleet_ops) ''test-model'' = Some [''backend-c'', ''backend-a'', ''backend-b'']
   \<and> ''backend-a'' \<in> set [''backend-c'', ''backend-a'', ''backend-b'']
   \<and> (\<exists>b. backends (run_ops fleet_ops) ''backend-a'' = Some b)"
proof -
  have m: "models (run_ops fleet_ops) ''test-model'' = Some [''backend-c'', ''backend-a'', ''backend-b'']"
    by code_simp
  have i: "''backend-a'' \<in> set [''backend-c'', ''backend-a'', ''backend-b'']" by simp
  show ?thesis
    using m i registry_soundness [OF m i] by simp
qed

text \<open>
  In a sound registry the fallback of \<open>LookupByModel\<close> is the first handle of the
  sequence: a model that is mapped always gets a backend.
\<close>

lemma LookupByModel_sound_registry:
  assumes "registry_sound r" and "models r m = Some ids" and "ids \<noteq> []"
  shows "LookupByModel r m =
           Some (case find IsHealthy (present_backends r ids) of
                   Some b \<Rightarrow> b
                 | None \<Rightarrow> hd (present_backends r ids))"
proof -
  obtain bid rest where ids: "ids = bid # rest"
    using assms(3) by (cases ids) auto
  from assms(1,2) have "set ids \<subseteq> dom (backends r)"
    unfolding registry_sound_def by blast
  with ids obtain b where b: "backends r bid = Some b"
    by auto
  show ?thesis
    using assms(2) ids b
    by (simp add: LookupByModel_def first_healthy_find present_backends_def
        split: option.splits)
qed

section \<open>Registering an id again\<close>

text \<open>
  What \<open>Register\<close> does to the sequence of a model: it keeps every id that was there,
  the id of the registered backend included, and adds that id for the fetched models.
  \<open>RefreshModels\<close> first removes the id everywhere, so after it the id is mapped by
  the fetched models only.
\<close>

lemma mapped_ids_addModelMapping:
  "mapped_ids (addModelMapping r m b) m' =
     (if m' = m \<and> b \<notin> set (mapped_ids r m) then mapped_ids r m @ [b] else mapped_ids r m')"
  by (simp add: mapped_ids_def models_addModelMapping)

lemma mapped_ids_index_models:
  "set (mapped_ids (index_models r b ms) m) =
     set (mapped_ids r m) \<union> (if m \<in> Model_ID ` set ms then {b} else {})"
  by (induction ms arbitrary: r) (auto simp add: mapped_ids_addModelMapping)

lemma Register_keeps_old_mappings:
  "set (mapped_ids (Register r b (Inr ms)) m) =
     set (mapped_ids r m) \<union> (if m \<in> Model_ID ` set ms then {ID b} else {})"
  by (simp add: Register_def Let_def mapped_ids_index_models) (simp add: mapped_ids_def)

lemma mapped_ids_remove_mappings:
  "set (mapped_ids (r\<lparr>models := remove_mappings (models r) b\<rparr>) m) = set (mapped_ids r m) - {b}"
  by (cases "models r m") (auto simp add: mapped_ids_def remove_mappings_def Let_def filter_empty_conv)

lemma RefreshModels_prunes:
  assumes "backends r b = Some h"
  shows "b \<in> set (mapped_ids (fst (RefreshModels r b (Inr ms))) m) \<longleftrightarrow> m \<in> Model_ID ` set ms"
  using assms
  by (simp add: RefreshModels_def Let_def mapped_ids_index_models mapped_ids_remove_mappings)

text \<open>
  Claim C3 says that \<open>Register\<close> on an id that is already registered prunes the model
  mappings of the old handle first. The code at this input: the second registration
  replaces the handle, its model list does not report \<open>model-2\<close>, and \<open>model-2\<close> still
  maps to the id.
\<close>

theorem Register_collision_stale:
  "backends collision_before ''backend-a'' = Some (newMockBackend ''backend-a'' True)
   \<and> backends collision_after ''backend-a'' = Some (newMockBackend ''backend-a'' False)
   \<and> ''model-2'' \<notin> set (map Model_ID [mock_model ''model-1''])
   \<and> models collision_after ''model-2'' = Some [''backend-a'']"
  by (simp add: collision_after_def collision_before_def Register_def addModelMapping_def
      NewBackendRegistry_def newMockBackend_def mock_model_def)

section \<open>The sorted order of the candidates is unique\<close>

text \<open>
  In every registry that the operations build, the handles collected for a model have
  pairwise distinct ids. So there is exactly one way to arrange them ascending by id, and
  any correct sort, stable or not, returns what \<open>sort_key ID\<close> returns.
\<close>

lemma keyed_index_models: "registry_keyed (index_models r b ms) = registry_keyed r"
  by (simp add: registry_keyed_def)

lemma keyed_apply_op: "registry_keyed r \<Longrightarrow> registry_keyed (apply_op r op)"
proof (cases op)
  case (OpRegister b fetched)
  assume "registry_keyed r"
  then have "registry_keyed (r\<lparr>backends := (backends r)(ID b \<mapsto> b)\<rparr>)"
    by (simp add: registry_keyed_def)
  then show ?thesis
    using OpRegister by (simp add: Register_def Let_def keyed_index_models split: sum.splits)
next
  case (OpUnregister b)
  assume "registry_keyed r"
  then show ?thesis
    using OpUnregister by (simp add: Unregister_def registry_keyed_def)
next
  case (OpRefreshModels b fetched)
  assume "registry_keyed r"
  then have "registry_keyed (r\<lparr>models := remove_mappings (models r) b\<rparr>)"
    by (simp add: registry_keyed_def)
  then show ?thesis
    using OpRefreshModels \<open>registry_keyed r\<close>
    by (simp add: RefreshModels_def Let_def keyed_index_models split: sum.splits option.splits)
qed

lemma distinct_addModelMapping:
  "registry_distinct r \<Longrightarrow> registry_distinct (addModelMapping r m b)"
  by (simp add: registry_distinct_def mapped_ids_addModelMapping)

lemma distinct_index_models:
  "registry_distinct r \<Longrightarrow> registry_distinct (index_models r b ms)"
  by (induction ms arbitrary: r) (simp_all add: distinct_addModelMapping)

lemma mapped_ids_backends_update [simp]:
  "mapped_ids (r\<lparr>backends := t\<rparr>) m = mapped_ids r m"
  by (simp add: mapped_ids_def)

lemma mapped_ids_remove_mappings_eq:
  "mapped_ids (r\<lparr>models := remove_mappings (models r) b\<rparr>) m =
     filter (\<lambda>bid. bid \<noteq> b) (mapped_ids r m)"
  by (cases "models r m") (simp_all add: mapped_ids_def remove_mappings_def Let_def)

lemma mapped_ids_Unregister:
  "mapped_ids (Unregister r b) m = filter (\<lambda>bid. bid \<noteq> b) (mapped_ids r m)"
  by (cases "models r m") (simp_all add: mapped_ids_def Unregister_def remove_mappings_def Let_def)

lemma distinct_apply_op: "registry_distinct r \<Longrightarrow> registry_distinct (apply_op r op)"
proof (cases op)
  case (OpRegister b fetched)
  assume "registry_distinct r"
  then have "registry_distinct (r\<lparr>backends := (backends r)(ID b \<mapsto> b)\<rparr>)"
    by (simp add: registry_distinct_def)
  then show ?thesis
    using OpRegister by (simp add: Register_def Let_def distinct_index_models split: sum.splits)
next
  case (OpUnregister b)
  assume "registry_distinct r"
  then show ?thesis
    using OpUnregister by (simp add: registry_distinct_def mapped_ids_Unregister)
next
  case (OpRefreshModels b fetched)
  assume d: "registry_distinct r"
  then have "registry_distinct (r\<lparr>models := remove_mappings (models r) b\<rparr>)"
    by (simp add: registry_distinct_def mapped_ids_remove_mappings_eq)
  then show ?thesis
    using OpRefreshModels d
    by (simp add: RefreshModels_def Let_def distinct_index_models split: sum.splits option.splits)
qed

lemma run_ops_keyed_distinct: "registry_keyed (run_ops ops) \<and> registry_distinct (run_ops ops)"
proof -
  have "registry_keyed r \<and> registry_distinct r \<Longrightarrow>
        registry_keyed (foldl apply_op r ops) \<and> registry_distinct (foldl apply_op r ops)" for r
    by (induction ops arbitrary: r) (simp_all add: keyed_apply_op distinct_apply_op)
  moreover have "registry_keyed NewBackendRegistry \<and> registry_distinct NewBackendRegistry"
    by (simp add: registry_keyed_def registry_distinct_def NewBackendRegistry_def mapped_ids_def)
  ultimately show ?thesis
    by (simp add: run_ops_def)
qed

lemma ID_map_filter_keyed:
  "registry_keyed r \<Longrightarrow>
     map ID (List.map_filter (backends r) ids) = filter (\<lambda>k. backends r k \<noteq> None) ids"
  by (induction ids) (auto simp add: registry_keyed_def split: option.splits)

lemma present_backends_distinct_ids:
  "distinct (map ID (present_backends (run_ops ops) (mapped_ids (run_ops ops) m)))"
  using run_ops_keyed_distinct [of ops]
  by (simp add: present_backends_def ID_map_filter_keyed registry_distinct_def)

lemma sorted_permutation_unique:
  assumes "distinct (map f xs)" and "mset ys = mset xs" and "sorted (map f ys)"
  shows "sort_key f xs = ys"
proof (rule properties_for_sort_key [OF assms(2) _ assms(3)])
  fix k
  assume k: "k \<in> set ys"
  have dy: "distinct (map f ys)"
    using assms(1,2) by (metis mset_map mset_eq_imp_distinct_iff)
  have "filter (\<lambda>x. f k = f x) zs = [k]" if "distinct (map f zs)" and "k \<in> set zs" for zs
    using that
  proof (induction zs)
    case Nil
    then show ?case by simp
  next
    case (Cons z zs)
    then show ?case
      by (auto simp add: filter_empty_conv image_iff)
  qed
  then show "filter (\<lambda>x. f k = f x) ys = filter (\<lambda>x. f k = f x) xs"
    using dy assms(1) k mset_eq_setD [OF assms(2)] by simp
qed

lemma sort_Slice_determined:
  assumes "mset ys = mset (present_backends (run_ops ops) (mapped_ids (run_ops ops) m))"
    and "sorted (map ID ys)"
  shows "sort_key ID (present_backends (run_ops ops) (mapped_ids (run_ops ops) m)) = ys"
  by (rule sorted_permutation_unique [OF present_backends_distinct_ids assms])

section \<open>Properties of the stream producer\<close>

lemma complete_lines_acc:
  "complete_lines cur body =
     (if newline \<in> set body
      then (cur @ takeWhile (\<lambda>c. c \<noteq> newline) body @ [newline])
             # complete_lines [] (tl (dropWhile (\<lambda>c. c \<noteq> newline) body))
      else [])"
  by (induction body arbitrary: cur) simp_all

lemma sse_payloads_no_newline:
  "newline \<notin> set body \<Longrightarrow> sse_payloads body = []"
  by (simp add: sse_payloads_def complete_lines_acc [of "[]" body])

lemma sse_payloads_newline:
  assumes "ReadString body bodyErr = (read, None, rest)"
  shows "sse_payloads body =
     (if prefix ''data: '' (TrimSpace read) then [drop (length ''data: '') (TrimSpace read)] else [])
       @ sse_payloads rest"
proof -
  from assms have nl: "newline \<in> set body"
    and r: "read = takeWhile (\<lambda>c. c \<noteq> newline) body @ [newline]"
    and rest: "rest = tl (dropWhile (\<lambda>c. c \<noteq> newline) body)"
    by (auto simp add: ReadString_def split: if_splits)
  have "complete_lines [] body = read # complete_lines [] rest"
    using nl r rest complete_lines_acc [of "[]" body] by simp
  then show ?thesis
    by (simp add: sse_payloads_def)
qed

lemma ReadString_shorter:
  assumes "ReadString body bodyErr = (read, None, rest)"
  shows "length rest < length body"
proof -
  from assms have nl: "newline \<in> set body"
    and rest: "rest = tl (dropWhile (\<lambda>c. c \<noteq> newline) body)"
    by (auto simp add: ReadString_def split: if_splits)
  from nl have "dropWhile (\<lambda>c. c \<noteq> newline) body \<noteq> []"
    by simp
  then have "length (tl (dropWhile (\<lambda>c. c \<noteq> newline) body)) < length body"
    using length_dropWhile_le [of "\<lambda>c. c \<noteq> newline" body]
    by (cases "dropWhile (\<lambda>c. c \<noteq> newline) body") auto
  with rest show ?thesis by simp
qed

lemma ReadString_cases:
  obtains (eof) "newline \<notin> set body" "ReadString body bodyErr = (body, Some bodyErr, [])"
  | (line) read rest where "newline \<in> set body" "ReadString body bodyErr = (read, None, rest)"
  by (cases "newline \<in> set body") (simp_all add: ReadString_def)

text \<open>
  Under the context that is never cancelled: the data events of the payloads before the
  first \<open>[DONE]\<close>, then the terminal event.
\<close>

lemma streamRequest_events_background:
  "streamRequest_events background i body bodyErr =
     map data_event (takeWhile (\<lambda>payload. payload \<noteq> ''[DONE]'') (sse_payloads body))
       @ [if ''[DONE]'' \<in> set (sse_payloads body) then done_event
          else if bodyErr = IoEOF then eof_event
          else error_event bodyErr]"
proof (induction "length body" arbitrary: body i rule: less_induct)
  case less
  show ?case
  proof (cases body bodyErr rule: ReadString_cases)
    case eof
    then show ?thesis
      by (subst streamRequest_events.simps)
        (simp add: background_def sse_payloads_no_newline eof_event_def error_event_def)
  next
    case (line read rest)
    note IH = less [OF ReadString_shorter [OF line(2)], of "Suc i"]
    show ?thesis
      by (subst streamRequest_events.simps)
        (simp add: background_def [of i] line(2) sse_payloads_newline [OF line(2)] IH
          Let_def data_event_def done_event_def)
  qed
qed


text \<open>
  Claim C7, as stated, fails. The line of the first body does not begin with \<open>data: \<close>,
  it begins with two spaces, and it produces a data event, because the producer tests
  the line after \<open>strings.TrimSpace\<close>. The second body is the line \<open>data: [DONE]\<close>
  without a line feed, and it produces the event \<open>{Done: true}\<close> without data, because
  \<open>ReadString\<close> returns these bytes together with \<open>io.EOF\<close> and the producer drops them.
\<close>

theorem streamRequest_events_line_counterexample:
  "\<not> prefix ''data: '' indented_body
   \<and> streamRequest_events background 0 indented_body IoEOF = [data_event ''x'', eof_event]
   \<and> streamRequest_events background 0 unterminated_body IoEOF = [eof_event]"
  by code_simp

lemma line_events_Nil: "line_events [] final = [final]"
  by (simp add: line_events_def line_payloads_def)

lemma line_events_Cons:
  "line_events (l # ls) final =
     (if prefix ''data: '' (TrimSpace l)
      then (if drop (length ''data: '') (TrimSpace l) = ''[DONE]'' then [done_event]
            else data_event (drop (length ''data: '') (TrimSpace l)) # line_events ls final)
      else line_events ls final)"
  by (simp add: line_events_def line_payloads_def)

lemma complete_lines_ReadString:
  assumes "ReadString body bodyErr = (read, None, rest)"
  shows "complete_lines [] body = read # complete_lines [] rest"
proof -
  from assms have nl: "newline \<in> set body"
    and r: "read = takeWhile (\<lambda>c. c \<noteq> newline) body @ [newline]"
    and rest: "rest = tl (dropWhile (\<lambda>c. c \<noteq> newline) body)"
    by (auto simp add: ReadString_def split: if_splits)
  show ?thesis
    using nl r rest complete_lines_acc [of "[]" body] by simp
qed

lemma complete_lines_no_newline: "newline \<notin> set body \<Longrightarrow> complete_lines [] body = []"
  by (simp add: complete_lines_acc [of "[]" body])

text \<open>
  Claim C7, amended. A line is a run of bytes of the body up to and including a line
  feed, and it is tested after \<open>strings.TrimSpace\<close> has removed its leading and trailing
  white space. For every body, every error that ends the reading and every context, the
  channel is closed after exactly one terminal event, determined by what ends the
  reading: a line that trims to \<open>data: [DONE]\<close> emits \<open>{Data: "[DONE]", Done: true}\<close>;
  \<open>io.EOF\<close> before such a line emits \<open>{Done: true}\<close> without data; any other read error
  before such a line emits \<open>{Err: err, Done: true}\<close>; a context found done before such a
  line and before the end of the body emits \<open>{Err: ctx.Err(), Done: true}\<close>. Before the
  terminal event every line read that trims to \<open>data: \<close> and a payload produces one data
  event; trimmed lines that do not begin with \<open>data: \<close>, blank lines among them, and the
  bytes after the last line feed produce no event.
\<close>

theorem streamRequest_events_lines:
  "streamRequest_events ctx i body bodyErr =
     (case first_cancel ctx i (length (complete_lines [] body)) of
        None \<Rightarrow>
          line_events (complete_lines [] body)
            (if bodyErr = IoEOF then eof_event else error_event bodyErr)
      | Some (j, ctxErr) \<Rightarrow>
          line_events (take j (complete_lines [] body)) (error_event ctxErr))"
proof (induction "length body" arbitrary: body i rule: less_induct)
  case less
  show ?case
  proof (cases "ctx i")
    case (Some e)
    then have "first_cancel ctx i (length (complete_lines [] body)) = Some (0, e)"
      by (cases "length (complete_lines [] body)") simp_all
    with Some show ?thesis
      by (subst streamRequest_events.simps) (simp add: line_events_Nil error_event_def)
  next
    case None
    show ?thesis
    proof (cases body bodyErr rule: ReadString_cases)
      case eof
      with None show ?thesis
        by (subst streamRequest_events.simps)
          (simp add: complete_lines_no_newline line_events_Nil eof_event_def error_event_def)
    next
      case (line read rest)
      note IH = less [OF ReadString_shorter [OF line(2)], of "Suc i"]
      note cl = complete_lines_ReadString [OF line(2)]
      show ?thesis
      proof (cases "first_cancel ctx (Suc i) (length (complete_lines [] rest))")
        case n: None
        with None line(2) IH show ?thesis
          by (subst streamRequest_events.simps)
            (simp add: cl line_events_Cons Let_def data_event_def done_event_def)
      next
        case (Some p)
        obtain j e where p: "p = (j, e)" by (cases p)
        with Some None line(2) IH show ?thesis
          by (subst streamRequest_events.simps)
            (simp add: cl line_events_Cons Let_def data_event_def done_event_def)
      qed
    qed
  qed
qed

theorem streamRequest_events_lines_witness:
  "streamRequest_events background 0 sse_body IoEOF =
     [data_event ''hello'', data_event ''world'', done_event]
   \<and> streamRequest_events background 0 cut_body IoEOF = [data_event ''hello'', eof_event]
   \<and> streamRequest_events background 0 cut_body (ReadError ''connection reset'') =
       [data_event ''hello'', error_event (ReadError ''connection reset'')]
   \<and> streamRequest_events (cancelled_from 2) 0 sse_body IoEOF =
       [data_event ''hello'', error_event (ContextError ''context canceled'')]"
proof -
  have l1: "complete_lines [] sse_body =
      [''data: hello'' @ [newline], [newline], '': ping'' @ [newline],
       ''  data: world  '' @ [CHR 0x0D, newline], ''data: [DONE]'' @ [newline],
       ''data: late'' @ [newline]]"
    by code_simp
  have l2: "complete_lines [] cut_body = [''event: x'' @ [newline], ''data: hello'' @ [newline]]"
    by code_simp
  have c1: "first_cancel background 0 6 = None"
    by code_simp
  have c2: "first_cancel background 0 2 = None"
    by code_simp
  have c3: "first_cancel (cancelled_from 2) 0 6 = Some (2, ContextError ''context canceled'')"
    by code_simp
  have e1: "line_events (complete_lines [] sse_body) eof_event =
      [data_event ''hello'', data_event ''world'', done_event]"
    by code_simp
  have e2: "line_events (complete_lines [] cut_body) final = [data_event ''hello'', final]" for final
    unfolding l2 by (simp add: line_events_Cons line_events_Nil) code_simp
  have e3: "line_events (take 2 (complete_lines [] sse_body))
        (error_event (ContextError ''context canceled'')) =
      [data_event ''hello'', error_event (ContextError ''context canceled'')]"
    by code_simp
  have n1: "length (complete_lines [] sse_body) = 6" unfolding l1 by simp
  have n2: "length (complete_lines [] cut_body) = 2" unfolding l2 by simp
  show ?thesis
    using streamRequest_events_lines [of background 0 sse_body IoEOF]
      streamRequest_events_lines [of background 0 cut_body IoEOF]
      streamRequest_events_lines [of background 0 cut_body "ReadError ''connection reset''"]
      streamRequest_events_lines [of "cancelled_from 2" 0 sse_body IoEOF]
    by (simp add: n1 n2 c1 c2 c3 e1 e2 e3)
qed

text \<open>
  Under any context, cancelled at some poll or never, the channel carries exactly one
  done event, as its last event; the events before it are not done and carry no error.
\<close>

lemma streamRequest_events_one_terminal:
  "\<exists>sent final. streamRequest_events ctx i body bodyErr = sent @ [final] \<and> Done final
     \<and> list_all (\<lambda>event. \<not> Done event \<and> Err event = None) sent"
proof (induction ctx i body bodyErr rule: streamRequest_events.induct)
  case (1 ctx i body bodyErr)
  show ?case
  proof (cases "ctx i")
    case (Some e)
    then show ?thesis
      by (subst streamRequest_events.simps) simp
  next
    case None
    show ?thesis
    proof (cases body bodyErr rule: ReadString_cases)
      case eof
      with None show ?thesis
        by (subst streamRequest_events.simps) simp
    next
      case (line read rest)
      let ?l = "TrimSpace read"
      show ?thesis
      proof (cases "?l = [] \<or> \<not> prefix ''data: '' ?l")
        case True
        with 1(1) [OF None] None line(2) show ?thesis
          by (subst streamRequest_events.simps) (simp add: Let_def)
      next
        case data: False
        show ?thesis
        proof (cases "drop (length ''data: '') ?l = ''[DONE]''")
          case True
          with data None line(2) show ?thesis
            by (subst streamRequest_events.simps) (simp add: Let_def)
        next
          case False
          from 1(2) [OF None line(2) [symmetric] _ _ refl _ refl False] data
          obtain sent final where
            r: "streamRequest_events ctx (Suc i) rest bodyErr = sent @ [final]"
            and f: "Done final"
            and s: "list_all (\<lambda>event. \<not> Done event \<and> Err event = None) sent"
            by auto
          let ?d = "\<lparr>Data = drop (length ''data: '') ?l, Err = None, Done = False\<rparr>"
          have "streamRequest_events ctx i body bodyErr = (?d # sent) @ [final]"
            using data False None line(2) r
            by (subst streamRequest_events.simps) (simp add: Let_def)
          moreover have "list_all (\<lambda>event. \<not> Done event \<and> Err event = None) (?d # sent)"
            using s by simp
          ultimately show ?thesis
            using f by blast
        qed
      qed
    qed
  qed
qed

section \<open>Properties of opening a stream\<close>

text \<open>
  Claim C8, as stated, fails: a response with status 204 is a 2xx response, and the call
  returns the status error and opens no channel.
\<close>

theorem streamRequest_2xx_counterexample:
  "200 \<le> (204::int) \<and> (204::int) < 300 \<and>
   streamRequest (server 204 ''204 No Content'' []) ''/v1/chat/completions'' ''{}'' =
     Inl (StreamRequestFailed ''204 No Content'' [])"
  by (simp add: streamRequest_def server_def StatusOK_def)

text \<open>
  Claim C8, amended. When the request could be built and sent and the response arrived:
  a non-2xx status makes the call return the status error and open no channel; the call
  opens the channel exactly when the status is 200, and returns the status error exactly
  when the status is not 200, so a 2xx status other than 200 is an error as well.
\<close>

theorem streamRequest_status:
  assumes "newRequest up endpoint = None" and "httpDo up endpoint body = Inr resp"
  shows "(\<not> (200 \<le> StatusCode resp \<and> StatusCode resp < 300) \<longrightarrow>
            streamRequest up endpoint body = Inl (StreamRequestFailed (Status resp) (Body resp)))
       \<and> ((\<exists>events. streamRequest up endpoint body = Inr events) \<longleftrightarrow> StatusCode resp = 200)
       \<and> (streamRequest up endpoint body = Inl (StreamRequestFailed (Status resp) (Body resp))
            \<longleftrightarrow> StatusCode resp \<noteq> 200)"
  using assms by (auto simp add: streamRequest_def StatusOK_def)

theorem streamRequest_status_witness:
  "newRequest (server 503 ''503 Service Unavailable'' ''busy'') ''/v1/completions'' = None
   \<and> httpDo (server 503 ''503 Service Unavailable'' ''busy'') ''/v1/completions'' ''{}''
       = Inr \<lparr>StatusCode = 503, Status = ''503 Service Unavailable'', Body = ''busy'', BodyErr = IoEOF\<rparr>
   \<and> streamRequest (server 503 ''503 Service Unavailable'' ''busy'') ''/v1/completions'' ''{}''
       = Inl (StreamRequestFailed ''503 Service Unavailable'' ''busy'')"
proof -
  let ?up = "server 503 ''503 Service Unavailable'' ''busy''"
  let ?resp = "\<lparr>StatusCode = 503, Status = ''503 Service Unavailable'', Body = ''busy'', BodyErr = IoEOF\<rparr>"
  have n: "newRequest ?up ''/v1/completions'' = None" by (simp add: server_def)
  have d: "httpDo ?up ''/v1/completions'' ''{}'' = Inr ?resp" by (simp add: server_def)
  show ?thesis
    using n d streamRequest_status [OF n d] by simp
qed

section \<open>Properties of the backend constructor and of the streaming calls\<close>

lemma healthy_apply_option: "gb_healthy (apply_option b opt) = gb_healthy b"
  by (cases opt) simp_all

lemma healthy_foldl_apply_option: "gb_healthy (foldl apply_option b opts) = gb_healthy b"
  by (induction opts arbitrary: b) (simp_all add: healthy_apply_option)

text \<open>
  Claim C9. For every id and every base URL that the URL parser accepts, and every list
  of the options of the package, the backend that \<open>NewGenericBackend\<close> returns is healthy
  right after construction, before any health check.
\<close>

theorem NewGenericBackend_healthy:
  assumes "url_Parse baseURL = Inr u"
  shows "\<exists>b. NewGenericBackend url_Parse ident baseURL opts = Inr b \<and> GenericBackend_IsHealthy b"
  using assms
  by (simp add: NewGenericBackend_def GenericBackend_IsHealthy_def healthy_foldl_apply_option)

theorem NewGenericBackend_healthy_witness:
  "parse_any ''http://localhost:8000'' = Inr ''http://localhost:8000'' \<and>
   (\<exists>b. NewGenericBackend parse_any ''vllm-1'' ''http://localhost:8000''
          [WithBackendType BackendVLLM, WithHTTPClient None] = Inr b \<and> GenericBackend_IsHealthy b)"
proof -
  have p: "parse_any ''http://localhost:8000'' = Inr ''http://localhost:8000''"
    by (simp add: parse_any_def)
  show ?thesis
    using p NewGenericBackend_healthy [of parse_any "''http://localhost:8000''" "''http://localhost:8000''" "''vllm-1''"
        "[WithBackendType BackendVLLM, WithHTTPClient None]"]
    by simp
qed

text \<open>
  Claim C10. \<open>ChatCompletionStream\<close> and \<open>CompletionStream\<close> set \<open>Stream\<close> to true in the
  request of the caller before they marshal and forward it: after the call the request
  has \<open>Stream\<close> true and every other field as it was, on every path, the one on which
  the call returns an error included; and what is marshalled and sent is that request.
\<close>

theorem Stream_flag_set:
  "fst (ChatCompletionStream marshal up chatReq) = chatReq\<lparr>Chat_Stream := True\<rparr>
   \<and> snd (ChatCompletionStream marshal up chatReq) =
       (case marshal (chatReq\<lparr>Chat_Stream := True\<rparr>) of
          Inl err \<Rightarrow> Inl err
        | Inr body \<Rightarrow> streamRequest up ''/v1/chat/completions'' body)
   \<and> fst (CompletionStream marshal' up compReq) = compReq\<lparr>Comp_Stream := True\<rparr>
   \<and> snd (CompletionStream marshal' up compReq) =
       (case marshal' (compReq\<lparr>Comp_Stream := True\<rparr>) of
          Inl err \<Rightarrow> Inl err
        | Inr body \<Rightarrow> streamRequest up ''/v1/completions'' body)"
proof -
  have chat: "ChatCompletionStream marshal up chatReq =
      (chatReq\<lparr>Chat_Stream := True\<rparr>,
       case marshal (chatReq\<lparr>Chat_Stream := True\<rparr>) of
         Inl err \<Rightarrow> Inl err
       | Inr body \<Rightarrow> streamRequest up ''/v1/chat/completions'' body)"
    by (cases "marshal (chatReq\<lparr>Chat_Stream := True\<rparr>)")
      (simp_all add: ChatCompletionStream_def Let_def)
  have comp: "CompletionStream marshal' up compReq =
      (compReq\<lparr>Comp_Stream := True\<rparr>,
       case marshal' (compReq\<lparr>Comp_Stream := True\<rparr>) of
         Inl err \<Rightarrow> Inl err
       | Inr body \<Rightarrow> streamRequest up ''/v1/completions'' body)"
    by (cases "marshal' (compReq\<lparr>Comp_Stream := True\<rparr>)")
      (simp_all add: CompletionStream_def Let_def)
  show ?thesis
    unfolding chat comp by simp
qed

theorem Stream_flag_set_witness:
  "Chat_Stream chat_request = False
   \<and> ChatCompletionStream marshal_fails (server 200 ''200 OK'' []) chat_request =
       (chat_request\<lparr>Chat_Stream := True\<rparr>, Inl (MarshalError ''json: unsupported value''))
   \<and> Chat_Stream (fst (ChatCompletionStream marshal_fails (server 200 ''200 OK'' []) chat_request))
   \<and> Chat_Model (fst (ChatCompletionStream marshal_fails (server 200 ''200 OK'' []) chat_request))
       = ''test-model''
   \<and> Comp_Stream (fst (CompletionStream marshal_fails (server 200 ''200 OK'' []) comp_request))"
proof -
  have f: "Chat_Stream chat_request = False"
    by (simp add: chat_request_def)
  have m: "Chat_Model chat_request = ''test-model''"
    by (simp add: chat_request_def)
  have e: "marshal_fails req = Inl (MarshalError ''json: unsupported value'')" for req :: "'a"
    by (simp add: marshal_fails_def)
  show ?thesis
    using f m
      Stream_flag_set [of marshal_fails "server 200 ''200 OK'' []" chat_request
        marshal_fails comp_request]
    by (simp add: e prod_eq_iff)
qed

section \<open>Properties of the relay\<close>

lemma sse_chunk_inj [simp]: "sse_chunk a = sse_chunk b \<longleftrightarrow> a = b"
  by (simp add: sse_chunk_def)



lemma attempts_WriteHeaders [simp]: "attempts (WriteHeaders sse) = attempts sse"
  by (simp add: WriteHeaders_def)









text \<open>
  The earlier revision of the streaming handler, kept in router.go, on the events of a
  body that ends without a \<open>[DONE]\<close> line: it writes the data chunk and no terminator.
  \<open>handleStream\<close> replaced it.
\<close>

lemma handleChatCompletionsStream_revision:
  "handleChatCompletionsStream good_client (Inr [data_event ''hello'', eof_event]) =
     Streamed \<lparr>accepts = (\<lambda>n. True),
       header = [(''Content-Type'', ''text/event-stream''), (''Cache-Control'', ''no-cache''),
                 (''Connection'', ''keep-alive''), (''X-Accel-Buffering'', ''no'')],
       attempts = [sse_chunk ''hello''], written = [sse_chunk ''hello'']\<rparr>
   \<and> terminators (handleChatCompletionsStream good_client (Inr [data_event ''hello'', eof_event])) = 0
   \<and> terminators (handleStream good_client (Inr [data_event ''hello'', eof_event])) = 1"
  by (simp add: handleChatCompletionsStream_def handleStream_def good_client_def data_event_def
      eof_event_def WriteHeaders_def WriteData_def WriteDone_def terminators_def)


end
